theory Spec2Isabelle
  imports Complex_Main "HOL-Library.Multiset"
begin

section \<open>Settlement computation of the bill-splitting ledger (calculateDebts in App.jsx)\<close>

text \<open>
  The development embeds \<^verbatim>\<open>calculateDebts\<close> of \<^verbatim>\<open>src/App.jsx\<close>: the aggregation
  of the participants' items and payments, the validation of the totals, the partition of
  the balance map into creditors and debtors, the two sorts and the matching loop.

  JavaScript numbers are modelled as exact reals: every sum, difference, comparison and
  \<^verbatim>\<open>Math.min\<close> below is the exact one. Rounding of IEEE doubles, \<^verbatim>\<open>NaN\<close>
  and the infinities are outside this model. The amounts of the example ledgers are
  dyadic, so the arithmetic on them is exact in doubles as well.
\<close>

subsection \<open>Data model\<close>

text \<open>An expense item \<^verbatim>\<open>{ name, value }\<close> as built by \<^verbatim>\<open>addItem\<close>.\<close>

record item =
  item_name :: string
  item_value :: real

text \<open>A participant \<^verbatim>\<open>{ name, items: [], payments: [], debt: 0 }\<close> as built by
  \<^verbatim>\<open>addPerson\<close>.\<close>

record person =
  name :: string
  items :: "item list"
  payments :: "real list"
  debt :: real

text \<open>The objects \<^verbatim>\<open>{ name, amount }\<close> pushed on \<^verbatim>\<open>creditors\<close> and
  \<^verbatim>\<open>debtors\<close>.\<close>

record entry =
  entry_name :: string
  amount :: real

text \<open>The objects \<^verbatim>\<open>{ from, to, amount }\<close> pushed on \<^verbatim>\<open>debts\<close>.\<close>

record transfer =
  t_from :: string
  t_to :: string
  t_amount :: real

text \<open>The returned object: \<^verbatim>\<open>{ error: "..." }\<close> or \<^verbatim>\<open>{ debts }\<close>. A field
  that the object literal does not set is \<open>None\<close>.\<close>

record result =
  error :: "string option"
  debts :: "transfer list option"

subsection \<open>The plain object \<^verbatim>\<open>debtMap\<close>\<close>

text \<open>
  \<^verbatim>\<open>const debtMap = {}\<close> is an ordinary object used as a dictionary. Its own
  properties are kept here in creation order, one pair per key.
\<close>

type_synonym object = "(string \<times> real) list"

text \<open>Writing an own data property: an existing key keeps its position and takes the new
  value, a new key is created after all existing ones.\<close>

fun assign :: "object \<Rightarrow> string \<Rightarrow> real \<Rightarrow> object" where
  "assign [] k v = [(k, v)]"
| "assign ((k', v') # ps) k v =
     (if k' = k then (k', v) # ps else (k', v') # assign ps k v)"

text \<open>
  \<^verbatim>\<open>debtMap[person.name] = paid - spent\<close>. The object inherits from
  \<^verbatim>\<open>Object.prototype\<close>, whose accessor \<^verbatim>\<open>__proto__\<close> has a setter that
  ignores every value that is neither an object nor null: assigning a number under that
  key creates no own property. Every other key inherited from the prototype is a writable
  data property, so the assignment creates an own property as usual.
\<close>

definition setProperty :: "object \<Rightarrow> string \<Rightarrow> real \<Rightarrow> object" where
  "setProperty obj k v = (if k = ''__proto__'' then obj else assign obj k v)"

text \<open>
  An array index is a key that is the canonical decimal form of an integer between
  \<open>0\<close> and \<open>2^32 - 2\<close>.
\<close>

definition isDigit :: "char \<Rightarrow> bool" where
  "isDigit c = (c \<in> set ''0123456789'')"

definition digitValue :: "char \<Rightarrow> int" where
  "digitValue c = of_char c - 48"

definition numericValue :: "string \<Rightarrow> int" where
  "numericValue s = foldl (\<lambda>n c. 10 * n + digitValue c) 0 s"

definition isArrayIndex :: "string \<Rightarrow> bool" where
  "isArrayIndex s =
     (case s of
        [] \<Rightarrow> False
      | c # cs \<Rightarrow> list_all isDigit s \<and> (if c = CHR ''0'' then cs = [] else True)
                  \<and> numericValue s < 4294967295)"

text \<open>
  \<^verbatim>\<open>Object.entries(debtMap)\<close> lists the own properties in property order: the
  array indices first, in ascending numeric order, then the other string keys in creation
  order.
\<close>

definition objectEntries :: "object \<Rightarrow> (string \<times> real) list" where
  "objectEntries obj =
     sort_key (\<lambda>kv. numericValue (fst kv)) (filter (\<lambda>kv. isArrayIndex (fst kv)) obj)
     @ filter (\<lambda>kv. \<not> isArrayIndex (fst kv)) obj"

subsection \<open>Aggregation: the \<^verbatim>\<open>people.forEach\<close> loop\<close>

text \<open>The three variables the loop updates.\<close>

record totals =
  totalSpent :: real
  totalPaid :: real
  debtMap :: object

text \<open>\<^verbatim>\<open>person.items.reduce((acc, item) => acc + item.value, 0)\<close>\<close>

definition spent :: "person \<Rightarrow> real" where
  "spent person = foldl (\<lambda>acc item. acc + item_value item) 0 (items person)"

text \<open>\<^verbatim>\<open>person.payments.reduce((acc, pay) => acc + pay, 0)\<close>\<close>

definition paid :: "person \<Rightarrow> real" where
  "paid person = foldl (\<lambda>acc pay. acc + pay) 0 (payments person)"

text \<open>The body of the callback of \<^verbatim>\<open>forEach\<close>.\<close>

definition forEachPerson :: "totals \<Rightarrow> person \<Rightarrow> totals" where
  "forEachPerson s person =
     \<lparr> totalSpent = totalSpent s + spent person,
       totalPaid = totalPaid s + paid person,
       debtMap = setProperty (debtMap s) (name person) (paid person - spent person) \<rparr>"

definition aggregate :: "person list \<Rightarrow> totals" where
  "aggregate people =
     foldl forEachPerson \<lparr> totalSpent = 0, totalPaid = 0, debtMap = [] \<rparr> people"

subsection \<open>Partition into creditors and debtors, and the two sorts\<close>

text \<open>The body of \<^verbatim>\<open>for (let [name, amount] of Object.entries(debtMap))\<close>, on the pair
  of arrays \<^verbatim>\<open>(creditors, debtors)\<close>.\<close>

definition pushEntry :: "entry list \<times> entry list \<Rightarrow> string \<times> real \<Rightarrow> entry list \<times> entry list" where
  "pushEntry cd kv =
     (if snd kv > 0 then (fst cd @ [\<lparr> entry_name = fst kv, amount = snd kv \<rparr>], snd cd)
      else if snd kv < 0 then (fst cd, snd cd @ [\<lparr> entry_name = fst kv, amount = \<bar>snd kv\<bar> \<rparr>])
      else cd)"

definition partitionEntries :: "object \<Rightarrow> entry list \<times> entry list" where
  "partitionEntries obj = foldl pushEntry ([], []) (objectEntries obj)"

text \<open>
  \<^verbatim>\<open>xs.sort((a, b) => b.amount - a.amount)\<close>: descending by amount.
  \<^verbatim>\<open>Array.prototype.sort\<close> is stable, so entries of equal amount keep their order;
  \<open>sort_key\<close> is the stable insertion sort.
\<close>

definition sortDesc :: "entry list \<Rightarrow> entry list" where
  "sortDesc xs = sort_key (\<lambda>e. - amount e) xs"

subsection \<open>The matching loop\<close>

text \<open>
  \<^verbatim>\<open>while (i < creditors.length && j < debtors.length) { ... }\<close> with the two arrays
  updated in place. The loop is defined without any assumption that it ends: \<open>None\<close>
  is the run that never leaves the loop.
\<close>

partial_function (option) matchLoop ::
  "entry list \<Rightarrow> entry list \<Rightarrow> nat \<Rightarrow> nat \<Rightarrow> transfer list \<Rightarrow> transfer list option" where
  "matchLoop creditors debtors i j out =
     (if i < length creditors \<and> j < length debtors then
        let debt = min (amount (creditors ! i)) (amount (debtors ! j));
            out' = out @ [\<lparr> t_from = entry_name (debtors ! j),
                            t_to = entry_name (creditors ! i), t_amount = debt \<rparr>];
            creditors' = creditors[i := (creditors ! i)\<lparr> amount := amount (creditors ! i) - debt \<rparr>];
            debtors' = debtors[j := (debtors ! j)\<lparr> amount := amount (debtors ! j) - debt \<rparr>];
            i' = (if amount (creditors' ! i) = 0 then i + 1 else i);
            j' = (if amount (debtors' ! j) = 0 then j + 1 else j)
        in matchLoop creditors' debtors' i' j' out'
      else Some out)"

subsection \<open>calculateDebts\<close>

text \<open>The arrays \<^verbatim>\<open>creditors\<close> and \<^verbatim>\<open>debtors\<close> when the loop starts.\<close>

definition creditors :: "person list \<Rightarrow> entry list" where
  "creditors people = sortDesc (fst (partitionEntries (debtMap (aggregate people))))"

definition debtors :: "person list \<Rightarrow> entry list" where
  "debtors people = sortDesc (snd (partitionEntries (debtMap (aggregate people))))"

definition calculateDebts :: "person list \<Rightarrow> result option" where
  "calculateDebts people =
     (if \<bar>totalSpent (aggregate people) - totalPaid (aggregate people)\<bar> > 0.01
      then Some \<lparr> error = Some ''Totals do not match'', debts = None \<rparr>
      else map_option (\<lambda>out. \<lparr> error = None, debts = Some out \<rparr>)
             (matchLoop (creditors people) (debtors people) 0 0 []))"

subsection \<open>Notions used to state the properties\<close>

text \<open>The net balance of a participant: the payments minus the item values.\<close>

definition balance :: "person \<Rightarrow> real" where
  "balance p = sum_list (payments p) - sum_list (map item_value (items p))"



text \<open>
  The greedy matching on the entries that are still open: the head of each list is the
  entry under the pointer, an entry leaves its list when its amount reaches zero.
\<close>

function greedy :: "entry list \<Rightarrow> entry list \<Rightarrow> transfer list" where
  "greedy [] ds = []"
| "greedy (c # cs) [] = []"
| "greedy (c # cs) (d # ds) =
     \<lparr> t_from = entry_name d, t_to = entry_name c, t_amount = min (amount c) (amount d) \<rparr> #
     greedy (if amount c - min (amount c) (amount d) = 0 then cs
             else c\<lparr> amount := amount c - min (amount c) (amount d) \<rparr> # cs)
            (if amount d - min (amount c) (amount d) = 0 then ds
             else d\<lparr> amount := amount d - min (amount c) (amount d) \<rparr> # ds)"
  by pat_completeness auto
termination
  by (relation "measure (\<lambda>(cs, ds). length cs + length ds)") (auto simp: min_def split: if_splits)

text \<open>
  The reference algorithm of the specification, on the participants themselves: those of
  positive balance are the creditors, those of negative balance the debtors with the
  absolute value as amount; both lists are sorted descending by amount and matched
  greedily.
\<close>

definition referenceCreditors :: "person list \<Rightarrow> entry list" where
  "referenceCreditors people =
     map (\<lambda>p. \<lparr> entry_name = name p, amount = balance p \<rparr>) (filter (\<lambda>p. balance p > 0) people)"

definition referenceDebtors :: "person list \<Rightarrow> entry list" where
  "referenceDebtors people =
     map (\<lambda>p. \<lparr> entry_name = name p, amount = \<bar>balance p\<bar> \<rparr>) (filter (\<lambda>p. balance p < 0) people)"

definition referenceTransfers :: "person list \<Rightarrow> transfer list" where
  "referenceTransfers people =
     greedy (sortDesc (referenceCreditors people)) (sortDesc (referenceDebtors people))"


subsection \<open>Example ledgers\<close>

text \<open>Alice: an item of 10, a payment of 30. Bob: an item of 20, no payment.\<close>

definition alice :: person where
  "alice = \<lparr> name = ''Alice'', items = [\<lparr> item_name = ''tea'', item_value = 10 \<rparr>],
             payments = [30], debt = 0 \<rparr>"

definition bob :: person where
  "bob = \<lparr> name = ''Bob'', items = [\<lparr> item_name = ''cake'', item_value = 20 \<rparr>],
           payments = [], debt = 0 \<rparr>"

text \<open>Carol has an item of 10 and paid nothing, Dave paid 15: the totals differ by 5.
  Erin has neither items nor payments.\<close>

definition carol :: person where
  "carol = \<lparr> name = ''Carol'', items = [\<lparr> item_name = ''taxi'', item_value = 10 \<rparr>],
             payments = [], debt = 0 \<rparr>"

definition dave :: person where
  "dave = \<lparr> name = ''Dave'', items = [], payments = [15], debt = 0 \<rparr>"



text \<open>A second participant named Alice, with neither items nor payments.\<close>

definition alice2 :: person where
  "alice2 = \<lparr> name = ''Alice'', items = [], payments = [], debt = 0 \<rparr>"



text \<open>Gina paid 30, Hal paid 10, Ivy has an item of 40, Joe an item of 20.\<close>

definition gina :: person where
  "gina = \<lparr> name = ''Gina'', items = [], payments = [30], debt = 0 \<rparr>"

definition hal :: person where
  "hal = \<lparr> name = ''Hal'', items = [], payments = [10], debt = 0 \<rparr>"

definition ivy :: person where
  "ivy = \<lparr> name = ''Ivy'', items = [\<lparr> item_name = ''hotel'', item_value = 40 \<rparr>],
           payments = [], debt = 0 \<rparr>"

definition joe :: person where
  "joe = \<lparr> name = ''Joe'', items = [\<lparr> item_name = ''fuel'', item_value = 20 \<rparr>], payments = [], debt = 0 \<rparr>"

text \<open>Two participants whose names are special as property keys.\<close>

definition one :: person where
  "one = \<lparr> name = ''1'', items = [], payments = [10], debt = 0 \<rparr>"

definition proto :: person where
  "proto = \<lparr> name = ''__proto__'', items = [], payments = [10], debt = 0 \<rparr>"

section \<open>Auxiliary facts\<close>

subsection \<open>The matching loop ends, and computes the greedy matching\<close>

lemma matchLoop_greedy:
  "matchLoop cs ds i j out = Some (out @ greedy (drop i cs) (drop j ds))"
proof (induction "(length cs - i) + (length ds - j)" arbitrary: cs ds i j out rule: less_induct)
  case less
  show ?case
  proof (cases "i < length cs \<and> j < length ds")
    case False
    then have "drop i cs = [] \<or> drop j ds = []" by auto
    then have "greedy (drop i cs) (drop j ds) = []"
      by (cases "drop i cs") auto
    with False show ?thesis by (subst matchLoop.simps) auto
  next
    case True
    then have i: "i < length cs" and j: "j < length ds" by auto
    define c where "c = cs ! i"
    define d where "d = ds ! j"
    define a where "a = min (amount c) (amount d)"
    define cs' where "cs' = cs[i := c\<lparr> amount := amount c - a \<rparr>]"
    define ds' where "ds' = ds[j := d\<lparr> amount := amount d - a \<rparr>]"
    define i' where "i' = (if amount c - a = 0 then i + 1 else i)"
    define j' where "j' = (if amount d - a = 0 then j + 1 else j)"
    define t where "t = \<lparr> t_from = entry_name d, t_to = entry_name c, t_amount = a \<rparr>"
    have step: "matchLoop cs ds i j out = matchLoop cs' ds' i' j' (out @ [t])"
      using i j by (subst matchLoop.simps)
        (simp add: Let_def c_def d_def a_def cs'_def ds'_def i'_def j'_def t_def)
    have zero: "amount c - a = 0 \<or> amount d - a = 0"
      by (auto simp: a_def min_def)
    have len: "length cs' = length cs" "length ds' = length ds"
      by (simp_all add: cs'_def ds'_def)
    have dec: "(length cs' - i') + (length ds' - j') < (length cs - i) + (length ds - j)"
      using zero i j by (auto simp: len i'_def j'_def)
    have dc: "drop i cs = c # drop (Suc i) cs" and dd: "drop j ds = d # drop (Suc j) ds"
      using i j by (simp_all add: c_def d_def Cons_nth_drop_Suc)
    have dc': "drop i' cs' =
        (if amount c - a = 0 then drop (Suc i) cs
         else c\<lparr> amount := amount c - a \<rparr> # drop (Suc i) cs)"
      using i by (simp add: i'_def cs'_def Cons_nth_drop_Suc[symmetric])
    have dd': "drop j' ds' =
        (if amount d - a = 0 then drop (Suc j) ds
         else d\<lparr> amount := amount d - a \<rparr> # drop (Suc j) ds)"
      using j by (simp add: j'_def ds'_def Cons_nth_drop_Suc[symmetric])
    have "matchLoop cs' ds' i' j' (out @ [t]) =
        Some ((out @ [t]) @ greedy (drop i' cs') (drop j' ds'))"
      by (rule less.hyps[OF dec])
    also have "(out @ [t]) @ greedy (drop i' cs') (drop j' ds') =
        out @ greedy (drop i cs) (drop j ds)"
      unfolding dc' dd' dc dd by (simp add: t_def a_def)
    finally show ?thesis using step by simp
  qed
qed

subsection \<open>Sums and totals\<close>

lemma foldl_add: "foldl (\<lambda>acc x. acc + f x) a xs = (a::real) + sum_list (map f xs)"
  by (induction xs arbitrary: a) simp_all

lemma spent_sum: "spent p = sum_list (map item_value (items p))"
  by (simp add: spent_def foldl_add)

lemma paid_sum: "paid p = sum_list (payments p)"
  using foldl_add[of "\<lambda>x. x" 0 "payments p"] by (simp add: paid_def)

lemma paid_minus_spent: "paid p - spent p = balance p"
  by (simp add: balance_def spent_sum paid_sum)

lemma forEachPerson_sel:
  "totalSpent (forEachPerson s p) = totalSpent s + spent p"
  "totalPaid (forEachPerson s p) = totalPaid s + paid p"
  "debtMap (forEachPerson s p) = setProperty (debtMap s) (name p) (balance p)"
  by (simp_all add: forEachPerson_def paid_minus_spent)

lemma foldl_totalSpent:
  "totalSpent (foldl forEachPerson s ps) = totalSpent s + sum_list (map spent ps)"
  by (induction ps arbitrary: s) (simp_all add: forEachPerson_sel)

lemma foldl_totalPaid:
  "totalPaid (foldl forEachPerson s ps) = totalPaid s + sum_list (map paid ps)"
  by (induction ps arbitrary: s) (simp_all add: forEachPerson_sel)

lemma aggregate_totalSpent: "totalSpent (aggregate people) = sum_list (map spent people)"
  by (simp add: aggregate_def foldl_totalSpent)

lemma aggregate_totalPaid: "totalPaid (aggregate people) = sum_list (map paid people)"
  by (simp add: aggregate_def foldl_totalPaid)

lemma aggregate_snoc:
  "aggregate (ps @ [p]) = forEachPerson (aggregate ps) p"
  by (simp add: aggregate_def)

lemma aggregate_Nil: "debtMap (aggregate []) = []"
  by (simp add: aggregate_def)


subsection \<open>The balance map\<close>

lemma map_of_assign: "map_of (assign m k v) = (map_of m)(k \<mapsto> v)"
  by (induction m k v rule: assign.induct) (auto simp: fun_eq_iff)

lemma keys_assign: "fst ` set (assign m k v) = insert k (fst ` set m)"
  by (induction m k v rule: assign.induct) auto

lemma distinct_assign: "distinct (map fst m) \<Longrightarrow> distinct (map fst (assign m k v))"
  by (induction m k v rule: assign.induct) (auto simp: keys_assign)

lemma assign_fresh: "k \<notin> fst ` set m \<Longrightarrow> assign m k v = m @ [(k, v)]"
  by (induction m k v rule: assign.induct) auto

lemma distinct_debtMap: "distinct (map fst (debtMap (aggregate people)))"
  by (induction people rule: rev_induct)
     (simp_all add: aggregate_Nil aggregate_snoc forEachPerson_sel setProperty_def distinct_assign)

lemma proto_not_key: "''__proto__'' \<notin> fst ` set (debtMap (aggregate people))"
  by (induction people rule: rev_induct)
     (simp_all add: aggregate_Nil aggregate_snoc forEachPerson_sel setProperty_def keys_assign)

text \<open>Last write wins: the value under a key is the balance of the last participant of
  that name.\<close>

lemma map_of_debtMap:
  "map_of (debtMap (aggregate people)) n =
     (if n = ''__proto__'' then None
      else map_of (rev (map (\<lambda>p. (name p, balance p)) people)) n)"
proof (induction people rule: rev_induct)
  case Nil
  show ?case by (simp add: aggregate_Nil)
next
  case (snoc p ps)
  show ?case
  proof (cases "name p = ''__proto__''")
    case True
    then show ?thesis using snoc
      by (simp add: aggregate_snoc forEachPerson_sel setProperty_def)
  next
    case False
    then show ?thesis using snoc
      by (auto simp: aggregate_snoc forEachPerson_sel setProperty_def map_of_assign)
  qed
qed

lemma debtMap_distinct_names:
  assumes "distinct (map name people)" and "''__proto__'' \<notin> set (map name people)"
  shows "debtMap (aggregate people) = map (\<lambda>p. (name p, balance p)) people"
  using assms
proof (induction people rule: rev_induct)
  case Nil
  show ?case by (simp add: aggregate_Nil)
next
  case (snoc p ps)
  then have IH: "debtMap (aggregate ps) = map (\<lambda>p. (name p, balance p)) ps" by simp
  have "name p \<notin> fst ` set (debtMap (aggregate ps))"
    using snoc.prems by (auto simp: IH image_iff)
  moreover have "name p \<noteq> ''__proto__''"
    using snoc.prems(2) by auto
  ultimately show ?case
    by (simp add: aggregate_snoc forEachPerson_sel setProperty_def assign_fresh IH)
qed

lemma debtMap_entries:
  assumes "(n, v) \<in> set (debtMap (aggregate people))"
  shows "\<exists>pre p post. people = pre @ p # post \<and> name p = n \<and> n \<notin> name ` set post \<and> v = balance p"
proof -
  have d: "distinct (map fst (debtMap (aggregate people)))" by (rule distinct_debtMap)
  have "map_of (debtMap (aggregate people)) n = Some v"
    using assms d by simp
  moreover have "n \<noteq> ''__proto__''"
    using assms proto_not_key[of people] by (auto simp: image_iff)
  ultimately have m: "map_of (rev (map (\<lambda>p. (name p, balance p)) people)) n = Some v"
    by (simp add: map_of_debtMap)
  then show ?thesis
  proof (induction people rule: rev_induct)
    case Nil
    then show ?case by simp
  next
    case (snoc p ps)
    show ?case
    proof (cases "name p = n")
      case True
      with snoc.prems have "v = balance p" by simp
      with True have "ps @ [p] = ps @ p # [] \<and> name p = n \<and> n \<notin> name ` set [] \<and> v = balance p"
        by simp
      then show ?thesis by blast
    next
      case False
      with snoc.prems have "map_of (rev (map (\<lambda>p. (name p, balance p)) ps)) n = Some v" by simp
      from snoc.IH[OF this] obtain pre q post where
        "ps = pre @ q # post" "name q = n" "n \<notin> name ` set post" "v = balance q" by blast
      with False have "ps @ [p] = pre @ q # (post @ [p]) \<and> name q = n \<and> n \<notin> name ` set (post @ [p]) \<and> v = balance q"
        by auto
      then show ?thesis by blast
    qed
  qed
qed

lemma debtMap_last_kept:
  assumes "people = pre @ p # post" and "name p \<notin> name ` set post" and "name p \<noteq> ''__proto__''"
  shows "map_of (debtMap (aggregate people)) (name p) = Some (balance p)"
proof -
  have "map_of (rev (map (\<lambda>p. (name p, balance p)) post)) (name p) = None"
    using assms(2) by (simp add: map_of_eq_None_iff image_iff) 
  then show ?thesis using assms(1,3)
    by (simp add: map_of_debtMap map_add_def)
qed

subsection \<open>The greedy matching\<close>

lemma greedy_lt:
  "amount c < amount d \<Longrightarrow> greedy (c # cs) (d # ds) =
     \<lparr> t_from = entry_name d, t_to = entry_name c, t_amount = amount c \<rparr> #
     greedy cs (d\<lparr> amount := amount d - amount c \<rparr> # ds)"
  by (simp add: min_def)

lemma greedy_eq:
  "amount c = amount d \<Longrightarrow> greedy (c # cs) (d # ds) =
     \<lparr> t_from = entry_name d, t_to = entry_name c, t_amount = amount c \<rparr> # greedy cs ds"
  by (simp add: min_def)

lemma greedy_gt:
  "amount d < amount c \<Longrightarrow> greedy (c # cs) (d # ds) =
     \<lparr> t_from = entry_name d, t_to = entry_name c, t_amount = amount d \<rparr> #
     greedy (c\<lparr> amount := amount c - amount d \<rparr> # cs) ds"
  by (simp add: min_def)

lemma greedy_Nil2: "greedy cs [] = []"
  by (cases cs) simp_all

lemma greedy_induct3 [case_names Nil1 Nil2 Less Equal Greater]:
  fixes P :: "entry list \<Rightarrow> entry list \<Rightarrow> bool"
  assumes "\<And>ds. P [] ds"
    and "\<And>c cs. P (c # cs) []"
    and "\<And>c cs d ds. amount c < amount d \<Longrightarrow>
           P cs (d\<lparr> amount := amount d - amount c \<rparr> # ds) \<Longrightarrow> P (c # cs) (d # ds)"
    and "\<And>c cs d ds. amount c = amount d \<Longrightarrow> P cs ds \<Longrightarrow> P (c # cs) (d # ds)"
    and "\<And>c cs d ds. amount d < amount c \<Longrightarrow>
           P (c\<lparr> amount := amount c - amount d \<rparr> # cs) ds \<Longrightarrow> P (c # cs) (d # ds)"
  shows "P cs ds"
proof (induction cs ds rule: greedy.induct)
  case (1 ds)
  show ?case by (rule assms(1))
next
  case (2 c cs)
  show ?case by (rule assms(2))
next
  case (3 c cs d ds)
  consider "amount c < amount d" | "amount c = amount d" | "amount d < amount c"
    by linarith
  then show ?case
  proof cases
    case 1
    with 3 show ?thesis by (intro assms(3)) (simp_all add: min_def)
  next
    case 2
    with 3 show ?thesis by (intro assms(4)) (simp_all add: min_def)
  next
    case 3
    with "3.IH" show ?thesis by (intro assms(5)) (simp_all add: min_def)
  qed
qed

lemma greedy_positive:
  "\<forall>c \<in> set cs. 0 < amount c \<Longrightarrow> \<forall>d \<in> set ds. 0 < amount d \<Longrightarrow>
   \<forall>t \<in> set (greedy cs ds). 0 < t_amount t"
  by (induction cs ds rule: greedy_induct3) (simp_all add: greedy_lt greedy_eq greedy_gt)


lemma greedy_length:
  "cs \<noteq> [] \<Longrightarrow> ds \<noteq> [] \<Longrightarrow> length (greedy cs ds) < length cs + length ds"
proof (induction cs ds rule: greedy_induct3)
  case (Less c cs d ds)
  then show ?case by (cases cs) (simp_all add: greedy_lt)
next
  case (Equal c cs d ds)
  then show ?case
    by (cases cs; cases ds) (simp_all add: greedy_eq greedy_Nil2)
next
  case (Greater c cs d ds)
  then show ?case by (cases ds) (simp_all add: greedy_gt greedy_Nil2)
qed simp_all









subsection \<open>Property order, partition and sort\<close>

lemma mset_objectEntries: "mset (objectEntries obj) = mset obj"
  by (simp add: objectEntries_def)

lemma set_objectEntries: "set (objectEntries obj) = set obj"
  using mset_objectEntries[of obj] by (metis set_mset_mset)

lemma objectEntries_no_index:
  "\<forall>kv \<in> set obj. \<not> isArrayIndex (fst kv) \<Longrightarrow> objectEntries obj = obj"
  by (simp add: objectEntries_def filter_empty_conv[THEN iffD2])

lemma foldl_pushEntry:
  "foldl pushEntry (cs, ds) es =
     (cs @ map (\<lambda>kv. \<lparr> entry_name = fst kv, amount = snd kv \<rparr>) (filter (\<lambda>kv. 0 < snd kv) es),
      ds @ map (\<lambda>kv. \<lparr> entry_name = fst kv, amount = \<bar>snd kv\<bar> \<rparr>) (filter (\<lambda>kv. snd kv < 0) es))"
  by (induction es arbitrary: cs ds) (simp_all add: pushEntry_def)

lemma partitionEntries_eq:
  "partitionEntries obj =
     (map (\<lambda>kv. \<lparr> entry_name = fst kv, amount = snd kv \<rparr>) (filter (\<lambda>kv. 0 < snd kv) (objectEntries obj)),
      map (\<lambda>kv. \<lparr> entry_name = fst kv, amount = \<bar>snd kv\<bar> \<rparr>) (filter (\<lambda>kv. snd kv < 0) (objectEntries obj)))"
  by (simp add: partitionEntries_def foldl_pushEntry)

lemma mset_sortDesc: "mset (sortDesc xs) = mset xs"
  by (simp add: sortDesc_def)

lemma set_sortDesc: "set (sortDesc xs) = set xs"
  by (simp add: sortDesc_def)


lemma distinct_names_sortDesc:
  "distinct (map entry_name (sortDesc xs)) = distinct (map entry_name xs)"
proof -
  have "mset (map entry_name (sortDesc xs)) = mset (map entry_name xs)"
    by (simp add: mset_sortDesc)
  then show ?thesis by (rule mset_eq_imp_distinct_iff)
qed

lemma distinct_keys_objectEntries:
  "distinct (map fst (objectEntries obj)) = distinct (map fst obj)"
proof -
  have "mset (map fst (objectEntries obj)) = mset (map fst obj)"
    by (simp add: mset_objectEntries)
  then show ?thesis by (rule mset_eq_imp_distinct_iff)
qed

lemma set_creditors:
  "set (creditors people) =
     (\<lambda>kv. \<lparr> entry_name = fst kv, amount = snd kv \<rparr>) `
       {kv \<in> set (debtMap (aggregate people)). 0 < snd kv}"
  by (auto simp: creditors_def set_sortDesc partitionEntries_eq set_objectEntries)

lemma set_debtors:
  "set (debtors people) =
     (\<lambda>kv. \<lparr> entry_name = fst kv, amount = \<bar>snd kv\<bar> \<rparr>) `
       {kv \<in> set (debtMap (aggregate people)). snd kv < 0}"
  by (auto simp: debtors_def set_sortDesc partitionEntries_eq set_objectEntries)

lemma creditors_positive: "\<forall>c \<in> set (creditors people). 0 < amount c"
  by (auto simp: set_creditors)

lemma debtors_positive: "\<forall>d \<in> set (debtors people). 0 < amount d"
  by (auto simp: set_debtors)

lemma distinct_creditors: "distinct (map entry_name (creditors people))"
proof -
  have "distinct (map fst (objectEntries (debtMap (aggregate people))))"
    by (simp add: distinct_keys_objectEntries distinct_debtMap)
  then have "distinct (map fst (filter (\<lambda>kv. 0 < snd kv) (objectEntries (debtMap (aggregate people)))))"
    by (rule distinct_map_filter)
  then show ?thesis
    by (simp add: creditors_def distinct_names_sortDesc partitionEntries_eq comp_def)
qed

lemma distinct_debtors: "distinct (map entry_name (debtors people))"
proof -
  have "distinct (map fst (objectEntries (debtMap (aggregate people))))"
    by (simp add: distinct_keys_objectEntries distinct_debtMap)
  then have "distinct (map fst (filter (\<lambda>kv. snd kv < 0) (objectEntries (debtMap (aggregate people)))))"
    by (rule distinct_map_filter)
  then show ?thesis
    by (simp add: debtors_def distinct_names_sortDesc partitionEntries_eq comp_def)
qed





subsection \<open>The result of calculateDebts\<close>

lemma matchLoop_start: "matchLoop cs ds 0 0 [] = Some (greedy cs ds)"
  by (simp add: matchLoop_greedy)

lemma calculateDebts_eq:
  "calculateDebts people =
     Some (if \<bar>totalSpent (aggregate people) - totalPaid (aggregate people)\<bar> > 0.01
           then \<lparr> error = Some ''Totals do not match'', debts = None \<rparr>
           else \<lparr> error = None, debts = Some (greedy (creditors people) (debtors people)) \<rparr>)"
  by (simp add: calculateDebts_def matchLoop_start)

subsection \<open>Evaluation at the example ledgers\<close>

lemmas eval_defs =
  aggregate_def forEachPerson_def spent_def paid_def setProperty_def
  creditors_def debtors_def partitionEntries_def pushEntry_def objectEntries_def
  isArrayIndex_def isDigit_def sortDesc_def

lemma calculateDebts_alice_bob:
  "calculateDebts [alice, bob] =
     Some \<lparr> error = None,
            debts = Some [\<lparr> t_from = ''Bob'', t_to = ''Alice'', t_amount = 20 \<rparr>] \<rparr>"
  by (simp add: calculateDebts_eq eval_defs alice_def bob_def)

lemma calculateDebts_carol_dave:
  "calculateDebts [carol, dave] = Some \<lparr> error = Some ''Totals do not match'', debts = None \<rparr>"
  by (simp add: calculateDebts_eq eval_defs carol_def dave_def)

lemma sum_spent: "sum_list (map (\<lambda>p. sum_list (map item_value (items p))) people) = totalSpent (aggregate people)"
proof -
  have "map spent people = map (\<lambda>p. sum_list (map item_value (items p))) people"
    by (simp add: spent_sum)
  then show ?thesis by (simp only: aggregate_totalSpent)
qed

lemma sum_paid: "sum_list (map (\<lambda>p. sum_list (payments p)) people) = totalPaid (aggregate people)"
proof -
  have "map paid people = map (\<lambda>p. sum_list (payments p)) people"
    by (simp add: paid_sum)
  then show ?thesis by (simp only: aggregate_totalPaid)
qed

subsection \<open>Creditors and debtors of a ledger with distinct names\<close>



lemma creditors_le_participants:
  "length (creditors people) \<le> length (filter (\<lambda>p. 0 < balance p) people)"
proof -
  have "entry_name ` set (creditors people) \<subseteq> name ` set (filter (\<lambda>p. 0 < balance p) people)"
  proof
    fix n assume "n \<in> entry_name ` set (creditors people)"
    then obtain v where "(n, v) \<in> set (debtMap (aggregate people))" "0 < v"
      by (auto simp: set_creditors)
    from debtMap_entries[OF this(1)] \<open>0 < v\<close> obtain pre p post where
      "people = pre @ p # post" "name p = n" "0 < balance p" by blast
    then show "n \<in> name ` set (filter (\<lambda>p. 0 < balance p) people)"
      by auto
  qed
  then have "card (entry_name ` set (creditors people)) \<le> card (name ` set (filter (\<lambda>p. 0 < balance p) people))"
    by (intro card_mono) simp_all
  also have "\<dots> \<le> card (set (filter (\<lambda>p. 0 < balance p) people))"
    by (intro card_image_le) simp
  also have "\<dots> \<le> length (filter (\<lambda>p. 0 < balance p) people)"
    by (rule card_length)
  finally show ?thesis
    using distinct_card[OF distinct_creditors[of people]] by simp
qed

lemma debtors_le_participants:
  "length (debtors people) \<le> length (filter (\<lambda>p. balance p < 0) people)"
proof -
  have "entry_name ` set (debtors people) \<subseteq> name ` set (filter (\<lambda>p. balance p < 0) people)"
  proof
    fix n assume "n \<in> entry_name ` set (debtors people)"
    then obtain v where "(n, v) \<in> set (debtMap (aggregate people))" "v < 0"
      by (auto simp: set_debtors)
    from debtMap_entries[OF this(1)] \<open>v < 0\<close> obtain pre p post where
      "people = pre @ p # post" "name p = n" "balance p < 0" by blast
    then show "n \<in> name ` set (filter (\<lambda>p. balance p < 0) people)"
      by auto
  qed
  then have "card (entry_name ` set (debtors people)) \<le> card (name ` set (filter (\<lambda>p. balance p < 0) people))"
    by (intro card_mono) simp_all
  also have "\<dots> \<le> card (set (filter (\<lambda>p. balance p < 0) people))"
    by (intro card_image_le) simp
  also have "\<dots> \<le> length (filter (\<lambda>p. balance p < 0) people)"
    by (rule card_length)
  finally show ?thesis
    using distinct_card[OF distinct_debtors[of people]] by simp
qed

lemma sorted_sortDesc: "sorted (map (\<lambda>e. - amount e) (sortDesc xs))"
  by (simp add: sortDesc_def)

lemma mset_creditors_distinct:
  assumes "distinct (map name people)" and "''__proto__'' \<notin> set (map name people)"
  shows "mset (creditors people) = mset (referenceCreditors people)"
proof -
  have "mset (filter (\<lambda>kv. 0 < snd kv) (objectEntries (debtMap (aggregate people)))) =
      mset (filter (\<lambda>kv. 0 < snd kv) (map (\<lambda>p. (name p, balance p)) people))"
    by (simp add: mset_objectEntries debtMap_distinct_names[OF assms])
  then have "mset (map (\<lambda>kv. \<lparr> entry_name = fst kv, amount = snd kv \<rparr>)
        (filter (\<lambda>kv. 0 < snd kv) (objectEntries (debtMap (aggregate people))))) =
      mset (map (\<lambda>kv. \<lparr> entry_name = fst kv, amount = snd kv \<rparr>)
        (filter (\<lambda>kv. 0 < snd kv) (map (\<lambda>p. (name p, balance p)) people)))"
    by (simp only: mset_map)
  then show ?thesis
    by (simp add: creditors_def mset_sortDesc partitionEntries_eq referenceCreditors_def
        filter_map comp_def)
qed

lemma mset_debtors_distinct:
  assumes "distinct (map name people)" and "''__proto__'' \<notin> set (map name people)"
  shows "mset (debtors people) = mset (referenceDebtors people)"
proof -
  have "mset (filter (\<lambda>kv. snd kv < 0) (objectEntries (debtMap (aggregate people)))) =
      mset (filter (\<lambda>kv. snd kv < 0) (map (\<lambda>p. (name p, balance p)) people))"
    by (simp add: mset_objectEntries debtMap_distinct_names[OF assms])
  then have "mset (map (\<lambda>kv. \<lparr> entry_name = fst kv, amount = \<bar>snd kv\<bar> \<rparr>)
        (filter (\<lambda>kv. snd kv < 0) (objectEntries (debtMap (aggregate people))))) =
      mset (map (\<lambda>kv. \<lparr> entry_name = fst kv, amount = \<bar>snd kv\<bar> \<rparr>)
        (filter (\<lambda>kv. snd kv < 0) (map (\<lambda>p. (name p, balance p)) people)))"
    by (simp only: mset_map)
  then show ?thesis
    by (simp add: debtors_def mset_sortDesc partitionEntries_eq referenceDebtors_def
        filter_map comp_def)
qed

subsection \<open>The stable descending sort is unique\<close>



subsection \<open>More evaluations\<close>

lemma calculateDebts_hal_gina_ivy:
  "calculateDebts [hal, gina, ivy] =
     Some \<lparr> error = None,
            debts = Some [\<lparr> t_from = ''Ivy'', t_to = ''Gina'', t_amount = 30 \<rparr>,
                          \<lparr> t_from = ''Ivy'', t_to = ''Hal'', t_amount = 10 \<rparr>] \<rparr>"
  by (simp add: calculateDebts_eq eval_defs hal_def gina_def ivy_def)

text \<open>A name that is an array index is listed before the names created earlier; the
  reference takes the participants in their order of the list.\<close>

lemma index_name_listed_first:
  "calculateDebts [hal, one, joe] =
     Some \<lparr> error = None,
            debts = Some [\<lparr> t_from = ''Joe'', t_to = ''1'', t_amount = 10 \<rparr>,
                          \<lparr> t_from = ''Joe'', t_to = ''Hal'', t_amount = 10 \<rparr>] \<rparr>"
  "referenceTransfers [hal, one, joe] =
     [\<lparr> t_from = ''Joe'', t_to = ''Hal'', t_amount = 10 \<rparr>,
      \<lparr> t_from = ''Joe'', t_to = ''1'', t_amount = 10 \<rparr>]"
  by (simp_all add: calculateDebts_eq eval_defs hal_def one_def joe_def numericValue_def digitValue_def
      balance_def referenceTransfers_def referenceCreditors_def referenceDebtors_def)

text \<open>A participant named \<^verbatim>\<open>__proto__\<close> gets no property of the balance map.\<close>

lemma proto_name_not_stored:
  "debtMap (aggregate [hal, proto, joe]) = [(''Hal'', 10), (''Joe'', - 20)]"
  "calculateDebts [hal, proto, joe] =
     Some \<lparr> error = None,
            debts = Some [\<lparr> t_from = ''Joe'', t_to = ''Hal'', t_amount = 10 \<rparr>] \<rparr>"
  by (simp_all add: calculateDebts_eq eval_defs hal_def proto_def joe_def)

section \<open>The claims\<close>






text \<open>
  C3. For every participant of the input list the balance the loop computes,
  \<^verbatim>\<open>paid - spent\<close>, is the sum of the participant's payments minus the sum of the
  values of the participant's items; an empty list of items or of payments contributes 0.
  \<^verbatim>\<open>totalSpent\<close> and \<^verbatim>\<open>totalPaid\<close> are the sums of these amounts over all
  participants. Every balance stored in \<^verbatim>\<open>debtMap\<close> is the balance of a participant
  of that name, and when the names are pairwise distinct and none is \<^verbatim>\<open>__proto__\<close>
  the map holds the balance of every participant under its name, in the order of the list.
\<close>

theorem aggregate_balances_and_totals:
  "totalSpent (aggregate people) = sum_list (map (\<lambda>p. sum_list (map item_value (items p))) people)
   \<and> totalPaid (aggregate people) = sum_list (map (\<lambda>p. sum_list (payments p)) people)
   \<and> (\<forall>p \<in> set people.
         paid p - spent p = sum_list (payments p) - sum_list (map item_value (items p))
         \<and> (items p = [] \<longrightarrow> spent p = 0) \<and> (payments p = [] \<longrightarrow> paid p = 0))
   \<and> (\<forall>kv \<in> set (debtMap (aggregate people)). \<exists>p \<in> set people.
         fst kv = name p \<and> snd kv = sum_list (payments p) - sum_list (map item_value (items p)))
   \<and> (distinct (map name people) \<and> ''__proto__'' \<notin> set (map name people) \<longrightarrow>
         debtMap (aggregate people) =
           map (\<lambda>p. (name p, sum_list (payments p) - sum_list (map item_value (items p)))) people)"
proof -
  have "map spent people = map (\<lambda>p. sum_list (map item_value (items p))) people"
    by (simp add: spent_sum)
  then have a: "totalSpent (aggregate people) = sum_list (map (\<lambda>p. sum_list (map item_value (items p))) people)"
    by (simp only: aggregate_totalSpent)
  have "map paid people = map (\<lambda>p. sum_list (payments p)) people"
    by (simp add: paid_sum)
  then have b: "totalPaid (aggregate people) = sum_list (map (\<lambda>p. sum_list (payments p)) people)"
    by (simp only: aggregate_totalPaid)
  have c: "\<forall>p \<in> set people.
         paid p - spent p = sum_list (payments p) - sum_list (map item_value (items p))
         \<and> (items p = [] \<longrightarrow> spent p = 0) \<and> (payments p = [] \<longrightarrow> paid p = 0)"
    by (simp add: spent_sum paid_sum)
  have d: "\<forall>kv \<in> set (debtMap (aggregate people)). \<exists>p \<in> set people.
         fst kv = name p \<and> snd kv = sum_list (payments p) - sum_list (map item_value (items p))"
  proof
    fix kv assume "kv \<in> set (debtMap (aggregate people))"
    then have "(fst kv, snd kv) \<in> set (debtMap (aggregate people))" by simp
    from debtMap_entries[OF this] obtain pre p post where
      "people = pre @ p # post" "name p = fst kv" "snd kv = balance p" by blast
    then have "p \<in> set people \<and> fst kv = name p
        \<and> snd kv = sum_list (payments p) - sum_list (map item_value (items p))"
      by (simp add: balance_def)
    then show "\<exists>p \<in> set people.
         fst kv = name p \<and> snd kv = sum_list (payments p) - sum_list (map item_value (items p))"
      by blast
  qed
  have e: "distinct (map name people) \<and> ''__proto__'' \<notin> set (map name people) \<longrightarrow>
         debtMap (aggregate people) =
           map (\<lambda>p. (name p, sum_list (payments p) - sum_list (map item_value (items p)))) people"
    using debtMap_distinct_names[of people] by (simp add: balance_def)
  from a b c d e show ?thesis by blast
qed

theorem aggregate_balances_and_totals_witness:
  "totalSpent (aggregate [alice, bob]) = 30 \<and> totalPaid (aggregate [alice, bob]) = 30
   \<and> paid alice - spent alice = 20 \<and> paid bob - spent bob = - 20 \<and> paid bob = 0
   \<and> debtMap (aggregate [alice, bob]) = [(''Alice'', 20), (''Bob'', - 20)]"
proof -
  have "debtMap (aggregate [alice, bob]) = [(''Alice'', 20), (''Bob'', - 20)]"
    by (simp add: aggregate_def forEachPerson_def setProperty_def spent_def paid_def alice_def bob_def)
  then show ?thesis
    using aggregate_balances_and_totals[of "[alice, bob]"]
    by (simp add: alice_def bob_def)
qed

text \<open>
  C4 (as stated, refuted). The ledger Alice (+20), a second Alice (0), Bob (-20) is valid.
  The balance map keeps one balance per name, the second Alice's 0, so calculateDebts
  emits no transfer, while the reference algorithm on the participants emits Bob to
  Alice, 20.
\<close>

theorem matches_reference_counterexample:
  "\<bar>totalSpent (aggregate [alice, alice2, bob]) - totalPaid (aggregate [alice, alice2, bob])\<bar> \<le> 0.01
   \<and> calculateDebts [alice, alice2, bob] = Some \<lparr> error = None, debts = Some [] \<rparr>
   \<and> referenceTransfers [alice, alice2, bob] = [\<lparr> t_from = ''Bob'', t_to = ''Alice'', t_amount = 20 \<rparr>]"
  by (simp add: calculateDebts_eq eval_defs alice_def alice2_def bob_def balance_def referenceTransfers_def
      referenceCreditors_def referenceDebtors_def)

text \<open>
  C4 (amended). For every valid ledger whose participants have pairwise distinct names,
  none of them \<^verbatim>\<open>__proto__\<close>, the transfer list of calculateDebts is the greedy
  matching of the creditors and debtors of the reference algorithm (the participants of
  positive balance, and those of negative balance with the absolute value as amount),
  each list arranged descending by amount. When moreover no name is an array index,
  entries of equal amount are in the order of the participants, and the transfer list is
  the result of the reference algorithm with the stable sort.
\<close>

theorem matches_reference_distinct_names:
  assumes "distinct (map name people)" and "''__proto__'' \<notin> set (map name people)"
    and "\<bar>totalSpent (aggregate people) - totalPaid (aggregate people)\<bar> \<le> 0.01"
  shows "calculateDebts people =
           Some \<lparr> error = None, debts = Some (greedy (creditors people) (debtors people)) \<rparr>
     \<and> mset (creditors people) = mset (referenceCreditors people)
     \<and> sorted (map (\<lambda>e. - amount e) (creditors people))
     \<and> mset (debtors people) = mset (referenceDebtors people)
     \<and> sorted (map (\<lambda>e. - amount e) (debtors people))
     \<and> ((\<forall>p \<in> set people. \<not> isArrayIndex (name p)) \<longrightarrow>
          calculateDebts people = Some \<lparr> error = None, debts = Some (referenceTransfers people) \<rparr>)"
proof -
  have r: "calculateDebts people =
           Some \<lparr> error = None, debts = Some (greedy (creditors people) (debtors people)) \<rparr>"
    using assms(3) by (simp add: calculateDebts_eq)
  have s: "sorted (map (\<lambda>e. - amount e) (creditors people))"
      "sorted (map (\<lambda>e. - amount e) (debtors people))"
    by (simp_all only: creditors_def debtors_def sorted_sortDesc)
  have m: "debtMap (aggregate people) = map (\<lambda>p. (name p, balance p)) people"
    by (rule debtMap_distinct_names[OF assms(1,2)])
  have x: "calculateDebts people = Some \<lparr> error = None, debts = Some (referenceTransfers people) \<rparr>"
    if plain: "\<forall>p \<in> set people. \<not> isArrayIndex (name p)"
  proof -
    have "\<forall>kv \<in> set (debtMap (aggregate people)). \<not> isArrayIndex (fst kv)"
      using plain by (simp add: m)
    then have e: "objectEntries (debtMap (aggregate people)) = map (\<lambda>p. (name p, balance p)) people"
      using objectEntries_no_index[of "debtMap (aggregate people)"] by (simp add: m)
    have c: "creditors people = sortDesc (referenceCreditors people)"
      by (simp add: creditors_def partitionEntries_eq e referenceCreditors_def filter_map comp_def)
    have d: "debtors people = sortDesc (referenceDebtors people)"
      by (simp add: debtors_def partitionEntries_eq e referenceDebtors_def filter_map comp_def)
    show ?thesis
      by (simp add: r c d referenceTransfers_def)
  qed
  from r s x mset_creditors_distinct[OF assms(1,2)] mset_debtors_distinct[OF assms(1,2)]
  show ?thesis by blast
qed

theorem matches_reference_distinct_names_witness:
  "distinct (map name [hal, gina, ivy]) \<and> ''__proto__'' \<notin> set (map name [hal, gina, ivy])
   \<and> \<not> isArrayIndex (name hal) \<and> \<not> isArrayIndex (name gina) \<and> \<not> isArrayIndex (name ivy)
   \<and> \<bar>totalSpent (aggregate [hal, gina, ivy]) - totalPaid (aggregate [hal, gina, ivy])\<bar> \<le> 0.01
   \<and> referenceTransfers [hal, gina, ivy] =
       [\<lparr> t_from = ''Ivy'', t_to = ''Gina'', t_amount = 30 \<rparr>,
        \<lparr> t_from = ''Ivy'', t_to = ''Hal'', t_amount = 10 \<rparr>]"
proof -
  have d: "distinct (map name [hal, gina, ivy])" by (simp add: hal_def gina_def ivy_def)
  have n: "''__proto__'' \<notin> set (map name [hal, gina, ivy])" by (simp add: hal_def gina_def ivy_def)
  have i: "\<forall>p \<in> set [hal, gina, ivy]. \<not> isArrayIndex (name p)"
    by (simp add: hal_def gina_def ivy_def isArrayIndex_def isDigit_def)
  have v: "\<bar>totalSpent (aggregate [hal, gina, ivy]) - totalPaid (aggregate [hal, gina, ivy])\<bar> \<le> 0.01"
    by (simp add: eval_defs hal_def gina_def ivy_def)
  have "calculateDebts [hal, gina, ivy] =
      Some \<lparr> error = None, debts = Some (referenceTransfers [hal, gina, ivy]) \<rparr>"
    using matches_reference_distinct_names[OF d n v] i by blast
  then have "referenceTransfers [hal, gina, ivy] =
       [\<lparr> t_from = ''Ivy'', t_to = ''Gina'', t_amount = 30 \<rparr>,
        \<lparr> t_from = ''Ivy'', t_to = ''Hal'', t_amount = 10 \<rparr>]"
    by (simp add: calculateDebts_hal_gina_ivy)
  with d n i v show ?thesis by simp
qed

text \<open>
  C5. Every transfer that calculateDebts emits has a strictly positive amount, for every
  input ledger.
\<close>

theorem transfers_positive:
  "calculateDebts people = Some r \<Longrightarrow> debts r = Some ts \<Longrightarrow> t \<in> set ts \<Longrightarrow> 0 < t_amount t"
  using greedy_positive[OF creditors_positive debtors_positive, of people people]
  by (auto simp: calculateDebts_eq split: if_splits)

theorem transfers_positive_witness:
  "calculateDebts [alice, bob] =
     Some \<lparr> error = None, debts = Some [\<lparr> t_from = ''Bob'', t_to = ''Alice'', t_amount = 20 \<rparr>] \<rparr>
   \<and> 0 < t_amount \<lparr> t_from = ''Bob'', t_to = ''Alice'', t_amount = 20 \<rparr>"
  using transfers_positive[OF calculateDebts_alice_bob, of "[\<lparr> t_from = ''Bob'', t_to = ''Alice'', t_amount = 20 \<rparr>]"
      "\<lparr> t_from = ''Bob'', t_to = ''Alice'', t_amount = 20 \<rparr>"]
    calculateDebts_alice_bob
  by simp



text \<open>
  C7. When calculateDebts returns transfers and there is at least one creditor and at
  least one debtor, the number of transfers is at most the number of creditors plus the
  number of debtors minus 1. This holds for the arrays \<^verbatim>\<open>creditors\<close> and
  \<^verbatim>\<open>debtors\<close> of the code, and for the participants of positive and of negative
  balance.
\<close>

theorem transfer_count_bound:
  assumes "calculateDebts people = Some r" and "debts r = Some ts"
  shows "(creditors people \<noteq> [] \<and> debtors people \<noteq> [] \<longrightarrow>
            length ts \<le> length (creditors people) + length (debtors people) - 1)
       \<and> (filter (\<lambda>p. 0 < balance p) people \<noteq> [] \<and> filter (\<lambda>p. balance p < 0) people \<noteq> [] \<longrightarrow>
            length ts \<le> length (filter (\<lambda>p. 0 < balance p) people)
                        + length (filter (\<lambda>p. balance p < 0) people) - 1)"
proof -
  have ts: "ts = greedy (creditors people) (debtors people)"
    using assms by (auto simp: calculateDebts_eq split: if_splits)
  have a: "creditors people \<noteq> [] \<and> debtors people \<noteq> [] \<longrightarrow>
            length ts \<le> length (creditors people) + length (debtors people) - 1"
    using greedy_length[of "creditors people" "debtors people"] by (auto simp: ts)
  have b: "filter (\<lambda>p. 0 < balance p) people \<noteq> [] \<and> filter (\<lambda>p. balance p < 0) people \<noteq> [] \<longrightarrow>
            length ts \<le> length (filter (\<lambda>p. 0 < balance p) people)
                        + length (filter (\<lambda>p. balance p < 0) people) - 1"
  proof (cases "creditors people \<noteq> [] \<and> debtors people \<noteq> []")
    case True
    with a creditors_le_participants[of people] debtors_le_participants[of people]
    show ?thesis by linarith
  next
    case False
    then have "ts = []"
      by (auto simp: ts greedy_Nil2)
    then show ?thesis by simp
  qed
  from a b show ?thesis by blast
qed

theorem transfer_count_bound_witness:
  "calculateDebts [hal, gina, ivy] =
     Some \<lparr> error = None,
            debts = Some [\<lparr> t_from = ''Ivy'', t_to = ''Gina'', t_amount = 30 \<rparr>,
                          \<lparr> t_from = ''Ivy'', t_to = ''Hal'', t_amount = 10 \<rparr>] \<rparr>
   \<and> creditors [hal, gina, ivy] =
       [\<lparr> entry_name = ''Gina'', amount = 30 \<rparr>, \<lparr> entry_name = ''Hal'', amount = 10 \<rparr>]
   \<and> debtors [hal, gina, ivy] = [\<lparr> entry_name = ''Ivy'', amount = 40 \<rparr>]
   \<and> length [\<lparr> t_from = ''Ivy'', t_to = ''Gina'', t_amount = 30 \<rparr>,
              \<lparr> t_from = ''Ivy'', t_to = ''Hal'', t_amount = 10 \<rparr>]
       \<le> length (creditors [hal, gina, ivy]) + length (debtors [hal, gina, ivy]) - 1"
proof -
  have c: "creditors [hal, gina, ivy] =
       [\<lparr> entry_name = ''Gina'', amount = 30 \<rparr>, \<lparr> entry_name = ''Hal'', amount = 10 \<rparr>]"
    by (simp add: eval_defs hal_def gina_def ivy_def)
  have d: "debtors [hal, gina, ivy] = [\<lparr> entry_name = ''Ivy'', amount = 40 \<rparr>]"
    by (simp add: eval_defs hal_def gina_def ivy_def)
  show ?thesis
    using transfer_count_bound[OF calculateDebts_hal_gina_ivy,
        of "[\<lparr> t_from = ''Ivy'', t_to = ''Gina'', t_amount = 30 \<rparr>,
             \<lparr> t_from = ''Ivy'', t_to = ''Hal'', t_amount = 10 \<rparr>]"]
      calculateDebts_hal_gina_ivy c d
    by simp
qed





text \<open>
  C10. The balance map has one entry per name, and every stored balance is the balance
  of the last participant of that name: when two participants share a name, the earlier
  one's balance is not kept. The last participant's balance is stored under every name
  but \<^verbatim>\<open>__proto__\<close>, for which nothing is stored. \<^verbatim>\<open>totalSpent\<close> and
  \<^verbatim>\<open>totalPaid\<close> sum over all participants, those of shared names included. For the
  ledger Alice (+20), a second Alice (0), Bob (-20) the totals agree, the map holds 0 for
  Alice, there is no creditor, and no transfer is emitted: the first Alice's balance
  takes no part in the matching.
\<close>

theorem duplicate_names_last_write_wins:
  "distinct (map fst (debtMap (aggregate people)))
   \<and> (\<forall>n v. (n, v) \<in> set (debtMap (aggregate people)) \<longrightarrow>
        (\<exists>pre p post. people = pre @ p # post \<and> name p = n \<and> n \<notin> name ` set post \<and> v = balance p))
   \<and> (name p \<notin> name ` set post \<and> name p \<noteq> ''__proto__'' \<longrightarrow>
        map_of (debtMap (aggregate (pre @ p # post))) (name p) = Some (balance p))
   \<and> totalSpent (aggregate people) = sum_list (map (\<lambda>p. sum_list (map item_value (items p))) people)
   \<and> totalPaid (aggregate people) = sum_list (map (\<lambda>p. sum_list (payments p)) people)
   \<and> balance alice = 20
   \<and> debtMap (aggregate [alice, alice2, bob]) = [(''Alice'', 0), (''Bob'', - 20)]
   \<and> totalSpent (aggregate [alice, alice2, bob]) = 30
   \<and> totalPaid (aggregate [alice, alice2, bob]) = 30
   \<and> creditors [alice, alice2, bob] = []
   \<and> calculateDebts [alice, alice2, bob] = Some \<lparr> error = None, debts = Some [] \<rparr>"
proof -
  have a: "name p \<notin> name ` set post \<and> name p \<noteq> ''__proto__'' \<longrightarrow>
      map_of (debtMap (aggregate (pre @ p # post))) (name p) = Some (balance p)"
    using debtMap_last_kept[of "pre @ p # post" pre p post] by simp
  have b: "\<forall>n v. (n, v) \<in> set (debtMap (aggregate people)) \<longrightarrow>
        (\<exists>pre p post. people = pre @ p # post \<and> name p = n \<and> n \<notin> name ` set post \<and> v = balance p)"
    using debtMap_entries[of _ _ people] by blast
  have c: "balance alice = 20
   \<and> debtMap (aggregate [alice, alice2, bob]) = [(''Alice'', 0), (''Bob'', - 20)]
   \<and> totalSpent (aggregate [alice, alice2, bob]) = 30
   \<and> totalPaid (aggregate [alice, alice2, bob]) = 30
   \<and> creditors [alice, alice2, bob] = []
   \<and> calculateDebts [alice, alice2, bob] = Some \<lparr> error = None, debts = Some [] \<rparr>"
    by (simp add: calculateDebts_eq eval_defs alice_def alice2_def bob_def balance_def)
  from a b c distinct_debtMap[of people] sum_spent[of people] sum_paid[of people]
  show ?thesis by simp
qed

theorem duplicate_names_last_write_wins_witness:
  "name alice2 = name alice \<and> name alice2 \<notin> name ` set [bob] \<and> name alice2 \<noteq> ''__proto__''
   \<and> balance alice2 = 0
   \<and> map_of (debtMap (aggregate [alice, alice2, bob])) ''Alice'' = Some 0"
proof -
  have h: "name alice2 \<notin> name ` set [bob] \<and> name alice2 \<noteq> ''__proto__''"
    by (simp add: alice2_def bob_def)
  have "map_of (debtMap (aggregate ([alice] @ alice2 # [bob]))) (name alice2) = Some (balance alice2)"
    using duplicate_names_last_write_wins[where people = "[alice, alice2, bob]" and p = alice2
        and post = "[bob]" and pre = "[alice]"] h
    by blast
  then show ?thesis using h by (simp add: alice2_def alice_def balance_def)
qed

end
